theory Spec2Isabelle
  imports Main
begin

section \<open>LogDrift: data model\<close>

text \<open>
  LogDrift reads log lines, infers a severity level for each, scores the line against
  three groups of compiled patterns and flags anomalies. The development follows
  \<^verbatim>\<open>main.go\<close> (the detector), the configuration file (\<^verbatim>\<open>Config\<close>, the filter) and
  the command-line file (\<^verbatim>\<open>CLIOptions\<close>).

  Go strings are byte sequences, so a line is a \<^typ>\<open>string\<close> (one \<^typ>\<open>char\<close> per byte).
  Go's \<^verbatim>\<open>int\<close> (64 bits on the usual targets) is modelled as \<^typ>\<open>int\<close>: a score is at
  most 100 plus 40 per compiled pattern and a counter grows by one per line, so neither
  comes near the end of the machine range for a pattern set that fits in memory and a run
  that ends.
  The fields \<^verbatim>\<open>Timestamp\<close>, \<^verbatim>\<open>Message\<close> and \<^verbatim>\<open>startTime\<close> (wall clock and trimmed
  copy of the line) take part in no decision and are left out, as are printing and the
  JSON file operations.
\<close>

datatype LogLevel = DEBUG | INFO | WARN | ERROR | FATAL

text \<open>The numeric value of each level (\<^verbatim>\<open>iota\<close>), which the comparisons use.\<close>

fun levelValue :: "LogLevel \<Rightarrow> int" where
  "levelValue DEBUG = 0"
| "levelValue INFO = 1"
| "levelValue WARN = 2"
| "levelValue ERROR = 3"
| "levelValue FATAL = 4"

record LogEntry =
  Level :: LogLevel
  Raw :: string
  IsAnomaly :: bool
  Score :: int

text \<open>
  A compiled \<^verbatim>\<open>*regexp.Regexp\<close> is used through \<^verbatim>\<open>MatchString\<close> only, so it is
  modelled by that predicate on lines.
\<close>

type_synonym Regexp = "string \<Rightarrow> bool"

record Config =
  ErrorPatterns :: "string list"
  SlowPatterns :: "string list"
  SuspiciousPatterns :: "string list"
  CustomPatterns :: "(string \<times> string) list"
  AnomalyThreshold :: int
  SlowThresholdMs :: int
  ShowDebug :: bool
  ShowInfo :: bool
  ColorOutput :: bool
  CompactOutput :: bool
  IncludeComponents :: "string list"
  ExcludeComponents :: "string list"
  MinLevel :: string

record AnomalyDetector =
  errorPatterns :: "Regexp list"
  slowPatterns :: "Regexp list"
  suspiciousIPs :: "Regexp list"
  errorKeywords :: "string list"
  lineCount :: int
  errorCount :: int
  warnCount :: int
  anomalyCount :: int
  config :: Config

section \<open>Strings\<close>

definition isASCII :: "char \<Rightarrow> bool" where
  "isASCII c \<longleftrightarrow> (of_char c :: nat) < 128"

definition toLowerByte :: "char \<Rightarrow> char" where
  "toLowerByte c =
     (let n = (of_char c :: nat) in if 65 \<le> n \<and> n \<le> 90 then char_of (n + 32) else c)"

definition toUpperByte :: "char \<Rightarrow> char" where
  "toUpperByte c =
     (let n = (of_char c :: nat) in if 97 \<le> n \<and> n \<le> 122 then char_of (n - 32) else c)"

text \<open>
  \<^verbatim>\<open>strings.ToLower\<close> and \<^verbatim>\<open>strings.ToUpper\<close> map an all-ASCII string byte by byte and
  hand every other string to \<^verbatim>\<open>strings.Map\<close> with the Unicode case tables. The tables
  belong to the Go library; they are a parameter of the model.
\<close>

record UnicodeTables =
  lowerMap :: "string \<Rightarrow> string"
  upperMap :: "string \<Rightarrow> string"

definition ToLower :: "UnicodeTables \<Rightarrow> string \<Rightarrow> string" where
  "ToLower u s = (if list_all isASCII s then map toLowerByte s else lowerMap u s)"

definition ToUpper :: "UnicodeTables \<Rightarrow> string \<Rightarrow> string" where
  "ToUpper u s = (if list_all isASCII s then map toUpperByte s else upperMap u s)"

text \<open>\<^verbatim>\<open>strings.Contains\<close>: the second string occurs in the first as a contiguous run.\<close>

fun Contains :: "string \<Rightarrow> string \<Rightarrow> bool" where
  "Contains [] substr = (substr = [])"
| "Contains (c # cs) substr = (take (length substr) (c # cs) = substr \<or> Contains cs substr)"

section \<open>The structured level pattern\<close>

text \<open>
  \<^verbatim>\<open>(?i)\b(FATAL|CRITICAL|ERROR|WARN|INFO|DEBUG)\s+\[\<close>.
  Under \<^verbatim>\<open>(?i)\<close> a letter of these six names matches its two ASCII cases and nothing else
  (none of them is a K or an S, the only ASCII letters with a further Unicode case variant);
  \<^verbatim>\<open>\b\<close> and \<^verbatim>\<open>\s\<close> are the ASCII classes of Go's syntax. Every byte the pattern can
  consume is therefore ASCII, and the match is decided on bytes.
\<close>

definition isWordChar :: "char \<Rightarrow> bool" where
  "isWordChar c \<longleftrightarrow>
     (let n = (of_char c :: nat)
      in (48 \<le> n \<and> n \<le> 57) \<or> (65 \<le> n \<and> n \<le> 90) \<or> (97 \<le> n \<and> n \<le> 122) \<or> n = 95)"

definition isSpaceChar :: "char \<Rightarrow> bool" where
  "isSpaceChar c \<longleftrightarrow> (of_char c :: nat) \<in> {9, 10, 12, 13, 32}"

definition levelNames :: "string list" where
  "levelNames = [''FATAL'', ''CRITICAL'', ''ERROR'', ''WARN'', ''INFO'', ''DEBUG'']"

text \<open>\<^verbatim>\<open>\b\<close> between two positions: exactly one side is a word character.\<close>

fun wordBoundary :: "char option \<Rightarrow> char option \<Rightarrow> bool" where
  "wordBoundary None None = False"
| "wordBoundary None (Some c) = isWordChar c"
| "wordBoundary (Some p) None = isWordChar p"
| "wordBoundary (Some p) (Some c) = (isWordChar p \<noteq> isWordChar c)"

text \<open>A name of the alternation, in either case of each letter, at the start of \<open>s\<close>.\<close>

definition matchName :: "string \<Rightarrow> string \<Rightarrow> bool" where
  "matchName name s \<longleftrightarrow>
     length name \<le> length s \<and> map toUpperByte (take (length name) s) = name"

text \<open>\<^verbatim>\<open>\s+\[\<close> at the start of \<open>s\<close>: the longest run of spaces, not empty, then the bracket.\<close>

definition matchSpacesBracket :: "string \<Rightarrow> bool" where
  "matchSpacesBracket s \<longleftrightarrow>
     takeWhile isSpaceChar s \<noteq> [] \<and>
     (case dropWhile isSpaceChar s of [] \<Rightarrow> False | c # _ \<Rightarrow> c = CHR ''['')"

text \<open>
  The alternatives are tried in the order written; the first one after which the rest of
  the pattern matches gives the submatch (the bytes of the line, in their own case).
\<close>

fun matchAlternatives :: "string list \<Rightarrow> string \<Rightarrow> string option" where
  "matchAlternatives [] s = None"
| "matchAlternatives (name # names) s =
     (if matchName name s \<and> matchSpacesBracket (drop (length name) s)
      then Some (take (length name) s)
      else matchAlternatives names s)"

text \<open>
  The leftmost match: \<open>prev\<close> is the byte before the current position. At the end of the
  line nothing matches, since the pattern consumes at least one byte.
\<close>

fun findLevelFrom :: "char option \<Rightarrow> string \<Rightarrow> string option" where
  "findLevelFrom prev [] = None"
| "findLevelFrom prev (c # cs) =
     (if wordBoundary prev (Some c)
      then (case matchAlternatives levelNames (c # cs) of
              Some tok \<Rightarrow> Some tok
            | None \<Rightarrow> findLevelFrom (Some c) cs)
      else findLevelFrom (Some c) cs)"

text \<open>
  \<^verbatim>\<open>levelPattern.FindStringSubmatch(line)\<close>: \<open>None\<close> when there is no match (the Go
  slice is nil), otherwise the first submatch \<^verbatim>\<open>matches[1]\<close>.
\<close>

definition FindStringSubmatch :: "string \<Rightarrow> string option" where
  "FindStringSubmatch line = findLevelFrom None line"

section \<open>The detector\<close>

text \<open>The level switch on a structured token: level, score and counters.\<close>

definition structuredLevel ::
  "string \<Rightarrow> LogEntry \<Rightarrow> AnomalyDetector \<Rightarrow> LogEntry \<times> AnomalyDetector" where
  "structuredLevel levelStr entry d =
     (if levelStr = ''FATAL'' \<or> levelStr = ''CRITICAL''
      then (entry\<lparr>Level := FATAL, Score := Score entry + 100\<rparr>,
            d\<lparr>errorCount := errorCount d + 1\<rparr>)
      else if levelStr = ''ERROR''
      then (entry\<lparr>Level := ERROR, Score := Score entry + 50\<rparr>,
            d\<lparr>errorCount := errorCount d + 1\<rparr>)
      else if levelStr = ''WARN''
      then (entry\<lparr>Level := WARN, Score := Score entry + 20\<rparr>,
            d\<lparr>warnCount := warnCount d + 1\<rparr>)
      else if levelStr = ''INFO''
      then (entry\<lparr>Level := INFO\<rparr>, d)
      else (entry\<lparr>Level := DEBUG\<rparr>, d))"

text \<open>The fallback switch on keywords of the lower-cased line.\<close>

definition keywordLevel ::
  "string \<Rightarrow> LogEntry \<Rightarrow> AnomalyDetector \<Rightarrow> LogEntry \<times> AnomalyDetector" where
  "keywordLevel lineLower entry d =
     (if Contains lineLower ''fatal'' \<or> Contains lineLower ''critical''
      then (entry\<lparr>Level := FATAL, Score := Score entry + 100\<rparr>,
            d\<lparr>errorCount := errorCount d + 1\<rparr>)
      else if Contains lineLower ''error'' \<and> \<not> Contains lineLower ''errors=0''
      then (entry\<lparr>Level := ERROR, Score := Score entry + 50\<rparr>,
            d\<lparr>errorCount := errorCount d + 1\<rparr>)
      else if Contains lineLower ''warn''
      then (entry\<lparr>Level := WARN, Score := Score entry + 20\<rparr>,
            d\<lparr>warnCount := warnCount d + 1\<rparr>)
      else if Contains lineLower ''info''
      then (entry\<lparr>Level := INFO\<rparr>, d)
      else (entry\<lparr>Level := DEBUG\<rparr>, d))"

text \<open>One of the three pattern loops: every pattern is tested, each match adds the weight.\<close>

fun scanPatterns :: "int \<Rightarrow> Regexp list \<Rightarrow> string \<Rightarrow> LogEntry \<Rightarrow> LogEntry" where
  "scanPatterns w [] line entry = entry"
| "scanPatterns w (pattern # rest) line entry =
     scanPatterns w rest line
       (if pattern line then entry\<lparr>Score := Score entry + w, IsAnomaly := True\<rparr> else entry)"

definition ParseLine ::
  "UnicodeTables \<Rightarrow> AnomalyDetector \<Rightarrow> string \<Rightarrow> LogEntry \<times> AnomalyDetector" where
  "ParseLine u d line =
     (let d1 = d\<lparr>lineCount := lineCount d + 1\<rparr>;
          entry = \<lparr>Level = DEBUG, Raw = line, IsAnomaly = False, Score = 0\<rparr>;
          lineLower = ToLower u line;
          (entry1, d2) =
            (case FindStringSubmatch line of
               Some tok \<Rightarrow> structuredLevel (ToUpper u tok) entry d1
             | None \<Rightarrow> keywordLevel lineLower entry d1);
          entry2 = scanPatterns 30 (errorPatterns d2) line entry1;
          entry3 = scanPatterns 25 (slowPatterns d2) line entry2;
          entry4 = scanPatterns 40 (suspiciousIPs d2) line entry3
      in if AnomalyThreshold (config d2) \<le> Score entry4
         then (entry4\<lparr>IsAnomaly := True\<rparr>, d2\<lparr>anomalyCount := anomalyCount d2 + 1\<rparr>)
         else (entry4, d2))"

section \<open>Configuration and filter\<close>

text \<open>A backslash cannot stand in a string literal; the patterns below splice it in.\<close>

definition bs :: string where
  "bs = [CHR 0x5C]"

definition DefaultConfig :: Config where
  "DefaultConfig =
     \<lparr>ErrorPatterns =
        [''(?i)(error|exception|fatal|panic|traceback)'',
         ''5'' @ bs @ ''d{2}'' @ bs @ ''s'',
         ''(?i)(failed|failure|timeout)'',
         ''(?i)(connection refused|broken pipe)'',
         ''(?i)(out of memory|oom)'',
         ''(?i)(segmentation fault|core dump)''],
      SlowPatterns =
        [''(?i)('' @ bs @ ''d+(?:'' @ bs @ ''.'' @ bs @ ''d+)?)(ms|s)'' @ bs @ ''s.*?(slow|timeout)'',
         ''response_time[=:]'' @ bs @ ''s*([5-9]'' @ bs @ ''d{2,}|'' @ bs @ ''d{4,})'',
         ''latency[=:]'' @ bs @ ''s*([5-9]'' @ bs @ ''d{2,}|'' @ bs @ ''d{4,})''],
      SuspiciousPatterns =
        [''(?i)(DROP|REJECT|blocked?|denied|unauthorized)'',
         ''(?i)(brute.?force|injection|xss|csrf)'',
         ''(?i)(malware|virus|exploit)''],
      CustomPatterns = [],
      AnomalyThreshold = 40,
      SlowThresholdMs = 500,
      ShowDebug = False,
      ShowInfo = False,
      ColorOutput = True,
      CompactOutput = False,
      IncludeComponents = [],
      ExcludeComponents = [],
      MinLevel = ''WARN''\<rparr>"

text \<open>
  \<^verbatim>\<open>regexp.Compile\<close> belongs to the Go library and is a parameter: it returns an error
  or a compiled pattern.
\<close>

datatype error = RegexpError string string

type_synonym Compile = "string \<Rightarrow> error + Regexp"

text \<open>One compile loop: the first error ends it, otherwise the pattern is appended.\<close>

fun compileEach :: "Compile \<Rightarrow> string list \<Rightarrow> Regexp list \<Rightarrow> error + Regexp list" where
  "compileEach compile [] regexes = Inr regexes"
| "compileEach compile (pattern # rest) regexes =
     (case compile pattern of
        Inl err \<Rightarrow> Inl err
      | Inr re \<Rightarrow> compileEach compile rest (regexes @ [re]))"

definition CompilePatterns ::
  "Compile \<Rightarrow> Config \<Rightarrow> error + (Regexp list \<times> Regexp list \<times> Regexp list)" where
  "CompilePatterns compile c =
     (case compileEach compile (ErrorPatterns c) [] of
        Inl err \<Rightarrow> Inl err
      | Inr errorRegexes \<Rightarrow>
          (case compileEach compile (SlowPatterns c) [] of
             Inl err \<Rightarrow> Inl err
           | Inr slowRegexes \<Rightarrow>
               (case compileEach compile (SuspiciousPatterns c) [] of
                  Inl err \<Rightarrow> Inl err
                | Inr suspiciousRegexes \<Rightarrow>
                    Inr (errorRegexes, slowRegexes, suspiciousRegexes))))"

text \<open>
  The constructor. On a compile error it writes a warning to the standard error stream
  (not modelled) and continues with three empty pattern lists.
\<close>

definition NewDetectorWithConfig :: "Compile \<Rightarrow> Config \<Rightarrow> AnomalyDetector" where
  "NewDetectorWithConfig compile cfg =
     (let (errorRegexes, slowRegexes, suspiciousRegexes) =
            (case CompilePatterns compile cfg of
               Inl err \<Rightarrow> ([], [], [])
             | Inr compiled \<Rightarrow> compiled)
      in \<lparr>errorPatterns = errorRegexes,
          slowPatterns = slowRegexes,
          suspiciousIPs = suspiciousRegexes,
          errorKeywords =
            [''error'', ''exception'', ''fatal'', ''panic'', ''failed'', ''timeout'',
             ''refused'', ''denied'', ''invalid'', ''corrupt''],
          lineCount = 0,
          errorCount = 0,
          warnCount = 0,
          anomalyCount = 0,
          config = cfg\<rparr>)"

definition NewDetector :: "Compile \<Rightarrow> AnomalyDetector" where
  "NewDetector compile = NewDetectorWithConfig compile DefaultConfig"

definition parseMinLevel :: "Config \<Rightarrow> LogLevel" where
  "parseMinLevel c =
     (if MinLevel c = ''FATAL'' then FATAL
      else if MinLevel c = ''ERROR'' then ERROR
      else if MinLevel c = ''WARN'' then WARN
      else if MinLevel c = ''INFO'' then INFO
      else DEBUG)"

text \<open>
  \<^verbatim>\<open>\[([^\]]+)\]\<close>, leftmost match, first submatch: at an opening bracket the class
  takes every byte up to the next closing bracket; the match needs at least one such byte
  and the closing bracket after them. Without a match the component is the empty string.
\<close>

fun extractComponent :: "string \<Rightarrow> string" where
  "extractComponent [] = []"
| "extractComponent (c # cs) =
     (if c = CHR ''[''
         \<and> takeWhile (\<lambda>x. x \<noteq> CHR '']'') cs \<noteq> []
         \<and> dropWhile (\<lambda>x. x \<noteq> CHR '']'') cs \<noteq> []
      then takeWhile (\<lambda>x. x \<noteq> CHR '']'') cs
      else extractComponent cs)"

definition ShouldShow :: "Config \<Rightarrow> LogEntry \<Rightarrow> bool" where
  "ShouldShow c entry =
     (let minLevel = parseMinLevel c
      in if levelValue (Level entry) < levelValue minLevel then False
         else
           (let component = extractComponent (Raw entry)
            in if 0 < length (IncludeComponents c)
                  \<and> component \<notin> set (IncludeComponents c)
               then False
               else component \<notin> set (ExcludeComponents c)))"

section \<open>Command line\<close>

text \<open>
  The option fields that share a name with a field of \<open>Config\<close> carry a prime.
\<close>

record CLIOptions =
  ConfigFile :: string
  ShowAll :: bool
  ShowDebug' :: bool
  ShowInfo' :: bool
  NoColor :: bool
  Compact :: bool
  Component :: string
  MinLevel' :: string
  OnlyAnomalies :: bool
  GenerateConfig :: bool
  Version :: bool

text \<open>
  \<^verbatim>\<open>flag.Parse\<close> reads the command line from left to right and stores each flag it
  meets in the variable registered for it; a variable no flag names keeps the default of
  its registration. A command line is modelled by the flags it sets, in their order.
\<close>

datatype Flag =
    FlagConfig string
  | FlagAll bool
  | FlagDebug bool
  | FlagInfo bool
  | FlagNoColor bool
  | FlagCompact bool
  | FlagComponent string
  | FlagMinLevel string
  | FlagAnomaliesOnly bool
  | FlagGenerateConfig bool
  | FlagVersion bool

fun setFlag :: "Flag \<Rightarrow> CLIOptions \<Rightarrow> CLIOptions" where
  "setFlag (FlagConfig s) opts = opts\<lparr>ConfigFile := s\<rparr>"
| "setFlag (FlagAll b) opts = opts\<lparr>ShowAll := b\<rparr>"
| "setFlag (FlagDebug b) opts = opts\<lparr>ShowDebug' := b\<rparr>"
| "setFlag (FlagInfo b) opts = opts\<lparr>ShowInfo' := b\<rparr>"
| "setFlag (FlagNoColor b) opts = opts\<lparr>NoColor := b\<rparr>"
| "setFlag (FlagCompact b) opts = opts\<lparr>Compact := b\<rparr>"
| "setFlag (FlagComponent s) opts = opts\<lparr>Component := s\<rparr>"
| "setFlag (FlagMinLevel s) opts = opts\<lparr>MinLevel' := s\<rparr>"
| "setFlag (FlagAnomaliesOnly b) opts = opts\<lparr>OnlyAnomalies := b\<rparr>"
| "setFlag (FlagGenerateConfig b) opts = opts\<lparr>GenerateConfig := b\<rparr>"
| "setFlag (FlagVersion b) opts = opts\<lparr>Version := b\<rparr>"

text \<open>The registered defaults: every flag empty or false, but \<^verbatim>\<open>min-level\<close>, which is WARN.\<close>

definition flagDefaults :: CLIOptions where
  "flagDefaults =
     \<lparr>ConfigFile = [], ShowAll = False, ShowDebug' = False, ShowInfo' = False,
      NoColor = False, Compact = False, Component = [], MinLevel' = ''WARN'',
      OnlyAnomalies = False, GenerateConfig = False, Version = False\<rparr>"

definition ParseCLI :: "Flag list \<Rightarrow> CLIOptions" where
  "ParseCLI args = fold setFlag args flagDefaults"

definition ApplyToConfig :: "CLIOptions \<Rightarrow> Config \<Rightarrow> Config" where
  "ApplyToConfig opts cfg =
     (let cfg1 =
            (if ShowAll opts
             then cfg\<lparr>ShowDebug := True, ShowInfo := True, MinLevel := ''DEBUG''\<rparr>
             else cfg);
          cfg2 =
            (if ShowDebug' opts
             then (if MinLevel cfg1 = ''INFO'' \<or> MinLevel cfg1 = ''WARN''
                   then cfg1\<lparr>ShowDebug := True, MinLevel := ''DEBUG''\<rparr>
                   else cfg1\<lparr>ShowDebug := True\<rparr>)
             else cfg1);
          cfg3 =
            (if ShowInfo' opts
             then (if MinLevel cfg2 = ''WARN''
                   then cfg2\<lparr>ShowInfo := True, MinLevel := ''INFO''\<rparr>
                   else cfg2\<lparr>ShowInfo := True\<rparr>)
             else cfg2);
          cfg4 = (if NoColor opts then cfg3\<lparr>ColorOutput := False\<rparr> else cfg3);
          cfg5 = (if Compact opts then cfg4\<lparr>CompactOutput := True\<rparr> else cfg4);
          cfg6 =
            (if Component opts \<noteq> [] then cfg5\<lparr>IncludeComponents := [Component opts]\<rparr>
             else cfg5)
      in if MinLevel' opts \<noteq> [] then cfg6\<lparr>MinLevel := MinLevel' opts\<rparr> else cfg6)"

section \<open>Notions of the specification\<close>

text \<open>The level-base contribution, as the data model states it.\<close>

fun levelBase :: "LogLevel \<Rightarrow> int" where
  "levelBase DEBUG = 0"
| "levelBase INFO = 0"
| "levelBase WARN = 20"
| "levelBase ERROR = 50"
| "levelBase FATAL = 100"



text \<open>The level a token name stands for, CRITICAL standing for FATAL.\<close>

definition levelOfName :: "string \<Rightarrow> LogLevel" where
  "levelOfName name =
     (if name = ''FATAL'' then FATAL
      else if name = ''CRITICAL'' then FATAL
      else if name = ''ERROR'' then ERROR
      else if name = ''WARN'' then WARN
      else if name = ''INFO'' then INFO
      else DEBUG)"

text \<open>
  A structured token in the words of the specification: at offset \<open>i\<close> of the line stands
  the level name \<open>name\<close>, each letter in either case, then whitespace (one or more of
  space, tab, line feed, form feed, carriage return), then an opening bracket.
\<close>

definition levelTokenAt :: "string \<Rightarrow> nat \<Rightarrow> string \<Rightarrow> bool" where
  "levelTokenAt line i name \<longleftrightarrow>
     name \<in> set levelNames \<and> i + length name \<le> length line \<and>
     map toUpperByte (take (length name) (drop i line)) = name \<and>
     (let after = drop (i + length name) line;
          blanks = length (takeWhile isSpaceChar after)
      in 0 < blanks \<and> take 1 (drop blanks after) = ''['')"

text \<open>
  The token starts a word: it stands at the start of the line, or the byte before it is
  not a letter, a digit or an underscore.
\<close>

definition structuredTokenAt :: "string \<Rightarrow> nat \<Rightarrow> string \<Rightarrow> bool" where
  "structuredTokenAt line i name \<longleftrightarrow>
     levelTokenAt line i name \<and> \<not> (0 < i \<and> isWordChar (line ! (i - 1)))"

text \<open>The detector after it has parsed the given lines, one after the other.\<close>

definition afterLines :: "UnicodeTables \<Rightarrow> AnomalyDetector \<Rightarrow> string list \<Rightarrow> AnomalyDetector" where
  "afterLines u d lines = foldl (\<lambda>d' l. snd (ParseLine u d' l)) d lines"

section \<open>Sample values\<close>

text \<open>
  Values for the concrete instances below. On an all-ASCII line the Unicode tables are
  never consulted; \<open>asciiTables\<close> maps byte by byte. A pattern made of letters only is
  a literal: it matches the lines that contain it. The pattern \<^verbatim>\<open>(\<close> has no closing
  parenthesis, which \<^verbatim>\<open>regexp.Compile\<close> reports as an error; \<open>compileLiteral\<close> compiles
  the literals and reports every other pattern.
\<close>

definition asciiTables :: UnicodeTables where
  "asciiTables = \<lparr>lowerMap = map toLowerByte, upperMap = map toUpperByte\<rparr>"

definition literal :: "string \<Rightarrow> Regexp" where
  "literal word line = Contains line word"

definition isLetter :: "char \<Rightarrow> bool" where
  "isLetter c \<longleftrightarrow>
     (let n = (of_char c :: nat) in (65 \<le> n \<and> n \<le> 90) \<or> (97 \<le> n \<and> n \<le> 122))"

definition compileLiteral :: Compile where
  "compileLiteral pattern =
     (if pattern \<noteq> [] \<and> list_all isLetter pattern then Inr (literal pattern)
      else Inl (RegexpError ''unsupported'' pattern))"

definition sampleDetector :: AnomalyDetector where
  "sampleDetector =
     \<lparr>errorPatterns = [literal ''timeout'', literal ''oom''],
      slowPatterns = [literal ''slow''],
      suspiciousIPs = [literal ''denied''],
      errorKeywords = [],
      lineCount = 0, errorCount = 0, warnCount = 0, anomalyCount = 0,
      config = DefaultConfig\<rparr>"

definition sampleEntry :: LogEntry where
  "sampleEntry = \<lparr>Level = ERROR, Raw = ''ERROR [db] down'', IsAnomaly = False, Score = 50\<rparr>"

text \<open>A config whose second slow pattern does not compile.\<close>

definition brokenConfig :: Config where
  "brokenConfig =
     DefaultConfig\<lparr>ErrorPatterns := [''timeout''], SlowPatterns := [''slow'', ''(''],
       SuspiciousPatterns := [''denied'']\<rparr>"

section \<open>Auxiliary functions for the proofs\<close>

text \<open>The number of patterns of a list that match a line.\<close>

definition matching :: "Regexp list \<Rightarrow> string \<Rightarrow> int" where
  "matching patterns line = int (length (filter (\<lambda>pattern. pattern line) patterns))"

text \<open>
  The level step of \<open>ParseLine\<close> as one function, and \<open>ParseLine\<close> in terms of it.
\<close>

definition levelStep ::
  "UnicodeTables \<Rightarrow> AnomalyDetector \<Rightarrow> string \<Rightarrow> LogEntry \<times> AnomalyDetector" where
  "levelStep u d line =
     (case FindStringSubmatch line of
        Some tok \<Rightarrow>
          structuredLevel (ToUpper u tok)
            \<lparr>Level = DEBUG, Raw = line, IsAnomaly = False, Score = 0\<rparr>
            (d\<lparr>lineCount := lineCount d + 1\<rparr>)
      | None \<Rightarrow>
          keywordLevel (ToLower u line)
            \<lparr>Level = DEBUG, Raw = line, IsAnomaly = False, Score = 0\<rparr>
            (d\<lparr>lineCount := lineCount d + 1\<rparr>))"

definition scanAll :: "AnomalyDetector \<Rightarrow> string \<Rightarrow> LogEntry \<Rightarrow> LogEntry" where
  "scanAll d line e =
     scanPatterns 40 (suspiciousIPs d) line
       (scanPatterns 25 (slowPatterns d) line (scanPatterns 30 (errorPatterns d) line e))"

text \<open>
  The byte before offset \<open>k\<close> of \<open>s\<close>, when \<open>prev\<close> is the byte before \<open>s\<close>; and the
  test the matcher makes at one position: the word boundary, a name, spaces and the bracket.
\<close>

definition byteBefore :: "char option \<Rightarrow> string \<Rightarrow> nat \<Rightarrow> char option" where
  "byteBefore prev s k = (if k = 0 then prev else Some (s ! (k - 1)))"

definition tokenHere :: "char option \<Rightarrow> string \<Rightarrow> string \<Rightarrow> bool" where
  "tokenHere prev s name \<longleftrightarrow>
     name \<in> set levelNames
     \<and> wordBoundary prev (case s of [] \<Rightarrow> None | c # _ \<Rightarrow> Some c)
     \<and> matchName name s \<and> matchSpacesBracket (drop (length name) s)"

section \<open>Properties of the detector\<close>

lemma scanPatterns_Score:
  "Score (scanPatterns w ps line e) = Score e + w * matching ps line"
  by (induction ps arbitrary: e) (simp_all add: matching_def algebra_simps)

lemma scanPatterns_Level: "Level (scanPatterns w ps line e) = Level e"
  by (induction ps arbitrary: e) simp_all

lemma scanPatterns_Raw: "Raw (scanPatterns w ps line e) = Raw e"
  by (induction ps arbitrary: e) simp_all

lemma scanPatterns_IsAnomaly:
  "IsAnomaly (scanPatterns w ps line e) \<longleftrightarrow> IsAnomaly e \<or> (\<exists>p \<in> set ps. p line)"
  by (induction ps arbitrary: e) auto

lemma structuredLevel_patterns:
  "errorPatterns (snd (structuredLevel s e d)) = errorPatterns d"
  "slowPatterns (snd (structuredLevel s e d)) = slowPatterns d"
  "suspiciousIPs (snd (structuredLevel s e d)) = suspiciousIPs d"
  "config (snd (structuredLevel s e d)) = config d"
  "anomalyCount (snd (structuredLevel s e d)) = anomalyCount d"
  by (simp_all add: structuredLevel_def)

lemma keywordLevel_patterns:
  "errorPatterns (snd (keywordLevel l e d)) = errorPatterns d"
  "slowPatterns (snd (keywordLevel l e d)) = slowPatterns d"
  "suspiciousIPs (snd (keywordLevel l e d)) = suspiciousIPs d"
  "config (snd (keywordLevel l e d)) = config d"
  "anomalyCount (snd (keywordLevel l e d)) = anomalyCount d"
  by (simp_all add: keywordLevel_def)

lemma structuredLevel_entry:
  "Score (fst (structuredLevel s e d)) = Score e + levelBase (Level (fst (structuredLevel s e d)))"
  "IsAnomaly (fst (structuredLevel s e d)) = IsAnomaly e"
  "Raw (fst (structuredLevel s e d)) = Raw e"
  by (simp_all add: structuredLevel_def)

lemma keywordLevel_entry:
  "Score (fst (keywordLevel l e d)) = Score e + levelBase (Level (fst (keywordLevel l e d)))"
  "IsAnomaly (fst (keywordLevel l e d)) = IsAnomaly e"
  "Raw (fst (keywordLevel l e d)) = Raw e"
  by (simp_all add: keywordLevel_def)

lemma ParseLine_steps:
  "ParseLine u d line =
     (let (e1, d2) = levelStep u d line; e4 = scanAll d2 line e1
      in if AnomalyThreshold (config d2) \<le> Score e4
         then (e4\<lparr>IsAnomaly := True\<rparr>, d2\<lparr>anomalyCount := anomalyCount d2 + 1\<rparr>)
         else (e4, d2))"
  by (simp add: ParseLine_def levelStep_def scanAll_def Let_def split: prod.splits option.splits)

lemma levelStep_detector:
  "errorPatterns (snd (levelStep u d line)) = errorPatterns d"
  "slowPatterns (snd (levelStep u d line)) = slowPatterns d"
  "suspiciousIPs (snd (levelStep u d line)) = suspiciousIPs d"
  "config (snd (levelStep u d line)) = config d"
  "anomalyCount (snd (levelStep u d line)) = anomalyCount d"
  by (simp_all add: levelStep_def structuredLevel_patterns keywordLevel_patterns
      split: option.splits)

lemma levelStep_entry:
  "Score (fst (levelStep u d line)) = levelBase (Level (fst (levelStep u d line)))"
  "IsAnomaly (fst (levelStep u d line)) = False"
  "Raw (fst (levelStep u d line)) = line"
  by (simp_all add: levelStep_def structuredLevel_entry keywordLevel_entry
      split: option.splits)

lemma scanAll_Score:
  "Score (scanAll d line e) =
     Score e + 30 * matching (errorPatterns d) line + 25 * matching (slowPatterns d) line
       + 40 * matching (suspiciousIPs d) line"
  by (simp add: scanAll_def scanPatterns_Score)

lemma scanAll_Level: "Level (scanAll d line e) = Level e"
  by (simp add: scanAll_def scanPatterns_Level)

lemma scanAll_IsAnomaly:
  "IsAnomaly (scanAll d line e) \<longleftrightarrow>
     IsAnomaly e \<or> (\<exists>p \<in> set (errorPatterns d @ slowPatterns d @ suspiciousIPs d). p line)"
  by (auto simp add: scanAll_def scanPatterns_IsAnomaly)

lemma ParseLine_entry:
  "fst (ParseLine u d line) =
     (let e4 = scanAll d line (fst (levelStep u d line))
      in if AnomalyThreshold (config d) \<le> Score e4 then e4\<lparr>IsAnomaly := True\<rparr> else e4)"
proof -
  obtain e1 d2 where s: "levelStep u d line = (e1, d2)"
    by (cases "levelStep u d line")
  have pats: "errorPatterns d2 = errorPatterns d" "slowPatterns d2 = slowPatterns d"
    "suspiciousIPs d2 = suspiciousIPs d" "config d2 = config d"
    using levelStep_detector [of u d line] by (simp_all add: s)
  have "scanAll d2 line e1 = scanAll d line e1"
    by (simp add: scanAll_def pats)
  then show ?thesis
    by (simp add: ParseLine_steps s Let_def pats)
qed

lemma ParseLine_detector:
  "snd (ParseLine u d line) =
     (let d2 = snd (levelStep u d line)
      in if AnomalyThreshold (config d) \<le> Score (fst (ParseLine u d line))
         then d2\<lparr>anomalyCount := anomalyCount d2 + 1\<rparr> else d2)"
proof -
  obtain e1 d2 where s: "levelStep u d line = (e1, d2)"
    by (cases "levelStep u d line")
  have pats: "errorPatterns d2 = errorPatterns d" "slowPatterns d2 = slowPatterns d"
    "suspiciousIPs d2 = suspiciousIPs d" "config d2 = config d"
    using levelStep_detector [of u d line] by (simp_all add: s)
  have "scanAll d2 line e1 = scanAll d line e1"
    by (simp add: scanAll_def pats)
  then show ?thesis
    by (simp add: ParseLine_steps s Let_def pats)
qed

lemma ParseLine_Level: "Level (fst (ParseLine u d line)) = Level (fst (levelStep u d line))"
  by (simp add: ParseLine_entry Let_def scanAll_Level)

lemma ParseLine_keeps_patterns:
  "errorPatterns (snd (ParseLine u d line)) = errorPatterns d"
  "slowPatterns (snd (ParseLine u d line)) = slowPatterns d"
  "suspiciousIPs (snd (ParseLine u d line)) = suspiciousIPs d"
  "config (snd (ParseLine u d line)) = config d"
  by (simp_all add: ParseLine_detector [of u d line] Let_def levelStep_detector)

lemma afterLines_keeps_patterns:
  "errorPatterns (afterLines u d lines) = errorPatterns d
   \<and> slowPatterns (afterLines u d lines) = slowPatterns d
   \<and> suspiciousIPs (afterLines u d lines) = suspiciousIPs d
   \<and> config (afterLines u d lines) = config d"
  unfolding afterLines_def
  by (induction lines arbitrary: d) (simp_all add: ParseLine_keeps_patterns)

text \<open>The score is bounded by the number of compiled patterns.\<close>

lemma matching_bounds: "0 \<le> matching ps line \<and> matching ps line \<le> int (length ps)"
  by (simp add: matching_def)

lemma levelBase_bounds: "0 \<le> levelBase l \<and> levelBase l \<le> 100"
  by (cases l) simp_all

lemma ParseLine_Score_bounds:
  "0 \<le> Score (fst (ParseLine u d line))
   \<and> Score (fst (ParseLine u d line))
       \<le> 100 + 40 * int (length (errorPatterns d) + length (slowPatterns d)
                          + length (suspiciousIPs d))"
proof -
  have "Score (fst (ParseLine u d line)) =
      levelBase (Level (fst (levelStep u d line))) + 30 * matching (errorPatterns d) line
        + 25 * matching (slowPatterns d) line + 40 * matching (suspiciousIPs d) line"
    by (simp add: ParseLine_entry Let_def scanAll_Score levelStep_entry)
  then show ?thesis
    using levelBase_bounds [of "Level (fst (levelStep u d line))"]
      matching_bounds [of "errorPatterns d" line] matching_bounds [of "slowPatterns d" line]
      matching_bounds [of "suspiciousIPs d" line]
    by simp
qed

lemmas matcher_defs =
  FindStringSubmatch_def levelNames_def matchName_def matchSpacesBracket_def
  isWordChar_def isSpaceChar_def toUpperByte_def toLowerByte_def isASCII_def
  ToLower_def ToUpper_def char_of_def bit_0

lemma sample_oom_entry:
  "fst (ParseLine asciiTables sampleDetector ''job oom'') =
     \<lparr>Level = DEBUG, Raw = ''job oom'', IsAnomaly = True, Score = 30\<rparr>"
  by (simp add: ParseLine_def FindStringSubmatch_def levelNames_def matchName_def
      matchSpacesBracket_def isWordChar_def isSpaceChar_def toUpperByte_def toLowerByte_def
      ToLower_def ToUpper_def isASCII_def keywordLevel_def structuredLevel_def
      sampleDetector_def asciiTables_def literal_def DefaultConfig_def Let_def)

text \<open>
  C1. For every line, the score of the entry that \<open>ParseLine\<close> returns is the base of the
  entry's level (0 for DEBUG and INFO, 20 for WARN, 50 for ERROR, 100 for FATAL) plus 30 for
  each error pattern that matches the line, 25 for each slow pattern and 40 for each
  suspicious pattern; every matching pattern counts once and the sum has no cap.
\<close>

theorem C1_score_is_level_base_plus_pattern_weights:
  "Score (fst (ParseLine u d line)) =
     levelBase (Level (fst (ParseLine u d line)))
       + 30 * int (length (filter (\<lambda>pattern. pattern line) (errorPatterns d)))
       + 25 * int (length (filter (\<lambda>pattern. pattern line) (slowPatterns d)))
       + 40 * int (length (filter (\<lambda>pattern. pattern line) (suspiciousIPs d)))"
  by (simp add: ParseLine_entry Let_def scanAll_Score scanAll_Level levelStep_entry
      matching_def)

text \<open>
  C2. For every line, the entry's anomaly flag is set exactly when some pattern of one of
  the three categories matched the line or the final score reaches the configured
  threshold.
\<close>

theorem C2_anomaly_flag:
  "IsAnomaly (fst (ParseLine u d line)) \<longleftrightarrow>
     (\<exists>pattern \<in> set (errorPatterns d @ slowPatterns d @ suspiciousIPs d). pattern line)
     \<or> AnomalyThreshold (config d) \<le> Score (fst (ParseLine u d line))"
  by (auto simp add: ParseLine_entry Let_def scanAll_IsAnomaly levelStep_entry)

text \<open>A line below the threshold that one error pattern matches.\<close>

theorem C2_anomaly_flag_witness:
  "(\<exists>pattern \<in> set (errorPatterns sampleDetector @ slowPatterns sampleDetector
        @ suspiciousIPs sampleDetector). pattern ''job oom'')
   \<and> \<not> AnomalyThreshold (config sampleDetector)
        \<le> Score (fst (ParseLine asciiTables sampleDetector ''job oom''))
   \<and> IsAnomaly (fst (ParseLine asciiTables sampleDetector ''job oom''))"
proof -
  have score: "Score (fst (ParseLine asciiTables sampleDetector ''job oom'')) = 30"
    by (simp add: sample_oom_entry)
  have match: "\<exists>pattern \<in> set (errorPatterns sampleDetector @ slowPatterns sampleDetector
        @ suspiciousIPs sampleDetector). pattern ''job oom''"
    by (simp add: sampleDetector_def literal_def)
  have thr: "AnomalyThreshold (config sampleDetector) = 40"
    by (simp add: sampleDetector_def DefaultConfig_def)
  from match C2_anomaly_flag [of asciiTables sampleDetector "''job oom''"]
  have "IsAnomaly (fst (ParseLine asciiTables sampleDetector ''job oom''))"
    by blast
  with match score thr show ?thesis by simp
qed

text \<open>
  C4. The anomaly counter grows by one for a line whose final score reaches the threshold
  and stays as it was for every other line; so it grows at most once per line, and a line
  flagged only because a pattern matched, with its score below the threshold, leaves the
  counter unchanged.
\<close>

theorem C4_anomaly_counter:
  "anomalyCount (snd (ParseLine u d line)) =
     anomalyCount d
       + (if AnomalyThreshold (config d) \<le> Score (fst (ParseLine u d line)) then 1 else 0)
   \<and> (IsAnomaly (fst (ParseLine u d line))
        \<and> Score (fst (ParseLine u d line)) < AnomalyThreshold (config d)
      \<longrightarrow> anomalyCount (snd (ParseLine u d line)) = anomalyCount d)"
  by (simp add: ParseLine_detector [of u d line] Let_def levelStep_detector)

theorem C4_anomaly_counter_witness:
  "IsAnomaly (fst (ParseLine asciiTables sampleDetector ''job oom''))
   \<and> Score (fst (ParseLine asciiTables sampleDetector ''job oom''))
        < AnomalyThreshold (config sampleDetector)
   \<and> anomalyCount (snd (ParseLine asciiTables sampleDetector ''job oom''))
        = anomalyCount sampleDetector"
proof -
  have thr: "AnomalyThreshold (config sampleDetector) = 40"
    by (simp add: sampleDetector_def DefaultConfig_def)
  show ?thesis
    using C4_anomaly_counter [of asciiTables sampleDetector "''job oom''"]
    by (simp add: sample_oom_entry thr)
qed

section \<open>Properties of level inference\<close>

lemma levelNames_prefix_free:
  "n1 \<in> set levelNames \<Longrightarrow> n2 \<in> set levelNames \<Longrightarrow> take (length n1) n2 = n1 \<Longrightarrow> n1 = n2"
  by (auto simp add: levelNames_def)

lemma matchName_unique:
  assumes "n1 \<in> set levelNames" "n2 \<in> set levelNames" "matchName n1 s" "matchName n2 s"
  shows "n1 = n2"
proof -
  have pre: "take (length a) b = a"
    if "matchName a s" "matchName b s" "length a \<le> length b" for a b
  proof -
    from that have a: "map toUpperByte (take (length a) s) = a"
      and b: "map toUpperByte (take (length b) s) = b"
      by (simp_all add: matchName_def)
    have "take (length a) b = take (length a) (map toUpperByte (take (length b) s))"
      using b by simp
    also have "\<dots> = map toUpperByte (take (length a) (take (length b) s))"
      by (simp add: take_map)
    also have "\<dots> = map toUpperByte (take (length a) s)"
      using that(3) by (simp add: min_def)
    finally show ?thesis using a by simp
  qed
  show ?thesis
  proof (cases "length n1 \<le> length n2")
    case True
    then show ?thesis using pre [of n1 n2] assms levelNames_prefix_free by blast
  next
    case False
    then have "take (length n2) n1 = n2" using pre [of n2 n1] assms by simp
    then show ?thesis using assms levelNames_prefix_free [of n2 n1] by simp
  qed
qed

lemma matchAlternatives_Some:
  "matchAlternatives names s = Some tok \<Longrightarrow>
     \<exists>name \<in> set names. matchName name s \<and> matchSpacesBracket (drop (length name) s)
        \<and> tok = take (length name) s"
  by (induction names) (auto split: if_splits)

lemma matchAlternatives_None:
  "matchAlternatives names s = None \<Longrightarrow> name \<in> set names \<Longrightarrow>
     \<not> (matchName name s \<and> matchSpacesBracket (drop (length name) s))"
  by (induction names) (auto split: if_splits)

lemma matchAlternatives_token:
  assumes "name \<in> set levelNames" "matchName name s" "matchSpacesBracket (drop (length name) s)"
  shows "matchAlternatives levelNames s = Some (take (length name) s)"
proof (cases "matchAlternatives levelNames s")
  case None
  then show ?thesis using matchAlternatives_None assms by blast
next
  case (Some tok)
  then obtain n where n: "n \<in> set levelNames" "matchName n s" "tok = take (length n) s"
    using matchAlternatives_Some by blast
  then have "n = name" using matchName_unique assms by blast
  then show ?thesis using Some n by simp
qed

lemma levelNames_nonempty: "name \<in> set levelNames \<Longrightarrow> name \<noteq> []"
  by (auto simp add: levelNames_def)

lemma byteBefore_Cons: "byteBefore prev (c # cs) (Suc k) = byteBefore (Some c) cs k"
  by (cases k) (simp_all add: byteBefore_def)

text \<open>
  The scan returns the token at the first position where the pattern matches.
\<close>

lemma findLevelFrom_leftmost:
  assumes "tokenHere (byteBefore prev s k) (drop k s) name"
    and "\<forall>j<k. \<forall>n. \<not> tokenHere (byteBefore prev s j) (drop j s) n"
  shows "findLevelFrom prev s = Some (take (length name) (drop k s))"
  using assms
proof (induction s arbitrary: prev k)
  case Nil
  then have "matchName name []" "name \<noteq> []"
    by (simp_all add: tokenHere_def levelNames_nonempty)
  then show ?case by (simp add: matchName_def)
next
  case (Cons c cs)
  show ?case
  proof (cases k)
    case 0
    with Cons.prems(1) have here: "tokenHere prev (c # cs) name"
      by (simp add: byteBefore_def)
    then have "matchAlternatives levelNames (c # cs) = Some (take (length name) (c # cs))"
      using matchAlternatives_token by (simp add: tokenHere_def)
    moreover from here have "wordBoundary prev (Some c)"
      by (simp add: tokenHere_def)
    ultimately show ?thesis using 0 by simp
  next
    case (Suc k')
    have none: "\<not> tokenHere prev (c # cs) n" for n
      using Cons.prems(2) Suc by (auto simp add: byteBefore_def dest: spec [of _ 0])
    have skip: "findLevelFrom prev (c # cs) = findLevelFrom (Some c) cs"
    proof (cases "wordBoundary prev (Some c)")
      case False
      then show ?thesis by simp
    next
      case True
      have "matchAlternatives levelNames (c # cs) = None"
      proof (cases "matchAlternatives levelNames (c # cs)")
        case None
        then show ?thesis .
      next
        case (Some tok)
        then obtain n where "n \<in> set levelNames" "matchName n (c # cs)"
          "matchSpacesBracket (drop (length n) (c # cs))"
          using matchAlternatives_Some by blast
        with True have "tokenHere prev (c # cs) n" by (simp add: tokenHere_def)
        with none show ?thesis by blast
      qed
      then show ?thesis by simp
    qed
    have here: "tokenHere (byteBefore (Some c) cs k') (drop k' cs) name"
      using Cons.prems(1) Suc by (simp add: byteBefore_Cons)
    have before: "\<forall>j<k'. \<forall>n. \<not> tokenHere (byteBefore (Some c) cs j) (drop j cs) n"
    proof (intro allI impI)
      fix j n assume "j < k'"
      then have "Suc j < k" using Suc by simp
      with Cons.prems(2) have "\<not> tokenHere (byteBefore prev (c # cs) (Suc j)) (drop (Suc j) (c # cs)) n"
        by blast
      then show "\<not> tokenHere (byteBefore (Some c) cs j) (drop j cs) n"
        by (simp add: byteBefore_Cons)
    qed
    from Cons.IH [OF here before] skip Suc show ?thesis by simp
  qed
qed

text \<open>Conversely, a token the scan returns stands at a position where the pattern matches.\<close>

lemma findLevelFrom_Some_token:
  "findLevelFrom prev s = Some tok \<Longrightarrow>
     \<exists>k name. tokenHere (byteBefore prev s k) (drop k s) name"
proof (induction s arbitrary: prev)
  case Nil
  then show ?case by simp
next
  case (Cons c cs)
  show ?case
  proof (cases "wordBoundary prev (Some c) \<and> matchAlternatives levelNames (c # cs) \<noteq> None")
    case True
    then obtain t where "matchAlternatives levelNames (c # cs) = Some t" by auto
    then obtain n where "n \<in> set levelNames" "matchName n (c # cs)"
      "matchSpacesBracket (drop (length n) (c # cs))"
      using matchAlternatives_Some by blast
    with True have "tokenHere (byteBefore prev (c # cs) 0) (drop 0 (c # cs)) n"
      by (simp add: tokenHere_def byteBefore_def)
    then show ?thesis by blast
  next
    case False
    with Cons.prems have "findLevelFrom (Some c) cs = Some tok"
      by (auto split: if_splits option.splits)
    from Cons.IH [OF this] obtain k name
      where "tokenHere (byteBefore (Some c) cs k) (drop k cs) name" by blast
    then have "tokenHere (byteBefore prev (c # cs) (Suc k)) (drop (Suc k) (c # cs)) name"
      by (simp add: byteBefore_Cons)
    then show ?thesis by blast
  qed
qed

lemma toUpperByte_letter:
  assumes "65 \<le> (of_char (toUpperByte c) :: nat)" "(of_char (toUpperByte c) :: nat) \<le> 90"
  shows "isASCII c \<and> isWordChar c"
  using assms by (auto simp add: toUpperByte_def isASCII_def isWordChar_def Let_def split: if_splits)

lemma levelNames_capitals:
  "name \<in> set levelNames \<Longrightarrow> c \<in> set name \<Longrightarrow>
     65 \<le> (of_char c :: nat) \<and> (of_char c :: nat) \<le> 90"
  by (auto simp add: levelNames_def)

lemma token_bytes:
  assumes "name \<in> set levelNames" "map toUpperByte tok = name" "c \<in> set tok"
  shows "isASCII c \<and> isWordChar c"
proof -
  from assms have "toUpperByte c \<in> set name" by auto
  then show ?thesis
    using levelNames_capitals [OF assms(1)] toUpperByte_letter by blast
qed

lemma ToUpper_token:
  assumes "name \<in> set levelNames" "map toUpperByte tok = name"
  shows "ToUpper u tok = name"
proof -
  have "list_all isASCII tok"
    using token_bytes [OF assms] by (simp add: list_all_iff)
  then show ?thesis using assms by (simp add: ToUpper_def)
qed

lemma structuredLevel_Level:
  "name \<in> set levelNames \<Longrightarrow> Level (fst (structuredLevel name e d)) = levelOfName name"
  by (auto simp add: levelNames_def structuredLevel_def levelOfName_def)

lemma matchSpacesBracket_iff:
  "matchSpacesBracket s \<longleftrightarrow>
     0 < length (takeWhile isSpaceChar s)
     \<and> take 1 (drop (length (takeWhile isSpaceChar s)) s) = ''[''"
  by (cases "drop (length (takeWhile isSpaceChar s)) s")
    (auto simp add: matchSpacesBracket_def dropWhile_eq_drop)

lemma isSpaceChar_bracket: "\<not> isSpaceChar CHR ''[''"
  by (simp add: isSpaceChar_def)

text \<open>
  The token predicate, read as a decomposition of the line: the bytes before offset \<open>i\<close>,
  the name in some case, a non-empty run of whitespace, the bracket, the rest.
\<close>

lemma levelTokenAt_decomposition:
  "levelTokenAt line i name \<longleftrightarrow>
     name \<in> set levelNames \<and>
     (\<exists>before tok blanks rest.
        line = before @ tok @ blanks @ CHR ''['' # rest \<and> length before = i
        \<and> map toUpperByte tok = name \<and> blanks \<noteq> [] \<and> list_all isSpaceChar blanks)"
proof
  assume t: "levelTokenAt line i name"
  let ?after = "drop (i + length name) line"
  let ?blanks = "takeWhile isSpaceChar ?after"
  from t have name: "name \<in> set levelNames" and len: "i + length name \<le> length line"
    and tok: "map toUpperByte (take (length name) (drop i line)) = name"
    and blanks: "?blanks \<noteq> []"
    and br: "take 1 (drop (length ?blanks) ?after) = ''[''"
    by (simp_all add: levelTokenAt_def Let_def)
  from br obtain rest where rest: "drop (length ?blanks) ?after = CHR ''['' # rest"
    by (cases "drop (length ?blanks) ?after") auto
  have "?after = ?blanks @ drop (length ?blanks) ?after"
    by (metis takeWhile_dropWhile_id dropWhile_eq_drop)
  with rest have after: "?after = ?blanks @ CHR ''['' # rest" by simp
  have "drop i line = take (length name) (drop i line) @ drop (length name) (drop i line)"
    by (simp only: append_take_drop_id)
  moreover have "drop (length name) (drop i line) = ?after"
    by (simp add: add.commute)
  moreover have "line = take i line @ drop i line"
    by (simp only: append_take_drop_id)
  ultimately have "line = take i line @ take (length name) (drop i line) @ ?after"
    by metis
  then have "line = take i line @ take (length name) (drop i line) @ ?blanks @ CHR ''['' # rest"
    using after by metis
  moreover have "length (take i line) = i" using len by simp
  moreover have "list_all isSpaceChar ?blanks"
    by (simp add: list_all_iff) (meson set_takeWhileD)
  ultimately show "name \<in> set levelNames \<and>
     (\<exists>before tok blanks rest.
        line = before @ tok @ blanks @ CHR ''['' # rest \<and> length before = i
        \<and> map toUpperByte tok = name \<and> blanks \<noteq> [] \<and> list_all isSpaceChar blanks)"
    using name tok blanks by blast
next
  assume "name \<in> set levelNames \<and>
     (\<exists>before tok blanks rest.
        line = before @ tok @ blanks @ CHR ''['' # rest \<and> length before = i
        \<and> map toUpperByte tok = name \<and> blanks \<noteq> [] \<and> list_all isSpaceChar blanks)"
  then obtain before tok blanks rest where name: "name \<in> set levelNames"
    and line: "line = before @ tok @ blanks @ CHR ''['' # rest" and i: "length before = i"
    and tok: "map toUpperByte tok = name" and ne: "blanks \<noteq> []"
    and sp: "list_all isSpaceChar blanks"
    by blast
  from tok have lt: "length tok = length name" by auto
  have after: "drop (i + length name) line = blanks @ CHR ''['' # rest"
    using line i lt by simp
  have tw: "takeWhile isSpaceChar (blanks @ CHR ''['' # rest) = blanks"
    using sp by (simp add: takeWhile_append2 list_all_iff isSpaceChar_bracket)
  show "levelTokenAt line i name"
    using name tok ne lt i
    by (simp add: levelTokenAt_def Let_def after tw) (simp add: line)
qed

text \<open>
  A structured token of the specification at offset \<open>i\<close> is a position where the
  pattern matches.
\<close>

lemma structuredTokenAt_tokenHere:
  "structuredTokenAt line i name \<longleftrightarrow> tokenHere (byteBefore None line i) (drop i line) name"
proof (cases "name \<in> set levelNames \<and> matchName name (drop i line)")
  case False
  then show ?thesis
    by (auto simp add: structuredTokenAt_def levelTokenAt_def tokenHere_def matchName_def)
next
  case True
  then have name: "name \<in> set levelNames" and m: "matchName name (drop i line)"
    by simp_all
  from name have ne: "name \<noteq> []" by (rule levelNames_nonempty)
  then have "0 < length name" by simp
  moreover from m have "length name \<le> length line - i" by (simp add: matchName_def)
  ultimately have len: "i + length name \<le> length line" and i: "i < length line"
    by arith+
  from i obtain c cs where dl: "drop i line = c # cs"
    by (cases "drop i line") auto
  from m ne dl have "c \<in> set (take (length name) (drop i line))"
    by (cases name) auto
  with m name have w: "isWordChar c"
    using token_bytes [of name "take (length name) (drop i line)" c]
    by (simp add: matchName_def)
  have b: "wordBoundary (byteBefore None line i) (Some c)
      \<longleftrightarrow> \<not> (0 < i \<and> isWordChar (line ! (i - 1)))"
    using w by (cases i) (simp_all add: byteBefore_def)
  have lt: "levelTokenAt line i name
      \<longleftrightarrow> matchSpacesBracket (drop (length name) (drop i line))"
    using name m len
    by (simp add: levelTokenAt_def matchSpacesBracket_iff Let_def matchName_def add.commute)
  have th: "tokenHere (byteBefore None line i) (drop i line) name
      \<longleftrightarrow> wordBoundary (byteBefore None line i) (Some c)
        \<and> matchSpacesBracket (drop (length name) (drop i line))"
    using name m by (simp add: tokenHere_def dl)
  show ?thesis
    by (auto simp add: structuredTokenAt_def lt th b)
qed

lemma FindStringSubmatch_leftmost:
  assumes "structuredTokenAt line i name"
    and "\<forall>j<i. \<forall>n. \<not> structuredTokenAt line j n"
  shows "FindStringSubmatch line = Some (take (length name) (drop i line))"
  unfolding FindStringSubmatch_def
  using assms by (intro findLevelFrom_leftmost) (simp_all add: structuredTokenAt_tokenHere)

text \<open>The pattern finds nothing exactly in the lines without a structured token.\<close>

lemma FindStringSubmatch_None_iff:
  "FindStringSubmatch line = None \<longleftrightarrow> (\<forall>i name. \<not> structuredTokenAt line i name)"
proof
  assume none: "FindStringSubmatch line = None"
  show "\<forall>i name. \<not> structuredTokenAt line i name"
  proof (rule ccontr)
    assume "\<not> (\<forall>i name. \<not> structuredTokenAt line i name)"
    then have ex: "\<exists>i. \<exists>name. structuredTokenAt line i name" by blast
    define k where "k = (LEAST i. \<exists>name. structuredTokenAt line i name)"
    from ex have "\<exists>name. structuredTokenAt line k name"
      unfolding k_def by (rule LeastI_ex)
    then obtain name where here: "structuredTokenAt line k name" by blast
    have "\<forall>j<k. \<forall>n. \<not> structuredTokenAt line j n"
      unfolding k_def using not_less_Least by blast
    from FindStringSubmatch_leftmost [OF here this] none show False by simp
  qed
next
  assume no: "\<forall>i name. \<not> structuredTokenAt line i name"
  show "FindStringSubmatch line = None"
  proof (cases "FindStringSubmatch line")
    case None
    then show ?thesis .
  next
    case (Some tok)
    then obtain k name where "tokenHere (byteBefore None line k) (drop k line) name"
      unfolding FindStringSubmatch_def using findLevelFrom_Some_token by blast
    then have "structuredTokenAt line k name"
      by (simp add: structuredTokenAt_tokenHere)
    with no show ?thesis by blast
  qed
qed

lemma levelStep_structured_Level:
  assumes "FindStringSubmatch line = Some tok" "name \<in> set levelNames"
    "map toUpperByte tok = name"
  shows "Level (fst (levelStep u d line)) = levelOfName name"
  using assms by (simp add: levelStep_def ToUpper_token structuredLevel_Level)






text \<open>
  C6, amended. For every line with a structured token that starts a word (one of FATAL,
  CRITICAL, ERROR, WARN, INFO, DEBUG in any letter case, then whitespace, then an opening
  bracket; at the start of the line or after a byte that is no letter, digit or
  underscore), the inferred level is the level of the leftmost such token, with CRITICAL
  mapped to FATAL.
\<close>

theorem C6_leftmost_structured_token:
  assumes "structuredTokenAt line i name"
    and "\<forall>j<i. \<forall>n. \<not> structuredTokenAt line j n"
  shows "Level (fst (ParseLine u d line)) = levelOfName name"
proof -
  from assms(1) have name: "name \<in> set levelNames"
    and tok: "map toUpperByte (take (length name) (drop i line)) = name"
    by (simp_all add: structuredTokenAt_def levelTokenAt_def)
  from FindStringSubmatch_leftmost [OF assms] name tok show ?thesis
    by (simp add: ParseLine_Level levelStep_structured_Level)
qed

lemma sample_token: "structuredTokenAt ''a info [x] ERROR [y]'' 2 ''INFO''"
  by (simp add: structuredTokenAt_def levelTokenAt_def levelNames_def isSpaceChar_def
      toUpperByte_def isWordChar_def char_of_def bit_0)

lemma sample_token_leftmost: "\<forall>j<2. \<forall>n. \<not> structuredTokenAt ''a info [x] ERROR [y]'' j n"
proof (intro allI impI)
  fix j :: nat and n assume "j < 2"
  then have "j = 0 \<or> j = 1" by arith
  then show "\<not> structuredTokenAt ''a info [x] ERROR [y]'' j n"
    by (auto simp add: structuredTokenAt_def levelTokenAt_def levelNames_def isSpaceChar_def
        toUpperByte_def isWordChar_def char_of_def bit_0)
qed

theorem C6_leftmost_structured_token_witness:
  "structuredTokenAt ''a info [x] ERROR [y]'' 2 ''INFO''
   \<and> (\<forall>n. \<not> structuredTokenAt ''a info [x] ERROR [y]'' 0 n)
   \<and> (\<forall>n. \<not> structuredTokenAt ''a info [x] ERROR [y]'' 1 n)
   \<and> structuredTokenAt ''a info [x] ERROR [y]'' 11 ''ERROR''
   \<and> Level (fst (ParseLine asciiTables sampleDetector ''a info [x] ERROR [y]'')) = INFO"
proof -
  have later: "structuredTokenAt ''a info [x] ERROR [y]'' 11 ''ERROR''"
    by (simp add: structuredTokenAt_def levelTokenAt_def levelNames_def isSpaceChar_def
        toUpperByte_def isWordChar_def char_of_def bit_0)
  show ?thesis
    using C6_leftmost_structured_token [OF sample_token sample_token_leftmost,
        of asciiTables sampleDetector] sample_token sample_token_leftmost later
    by (simp add: levelOfName_def)
qed

lemma two_tokens_Level:
  "Level (fst (ParseLine asciiTables sampleDetector ''INFO [a] ERROR [b]'')) = INFO"
  by (simp add: ParseLine_Level levelStep_def structuredLevel_def asciiTables_def matcher_defs)

lemma inner_token_Level:
  "Level (fst (ParseLine asciiTables sampleDetector ''cpuinfo [0] fatal'')) = FATAL"
  by (simp add: ParseLine_Level levelStep_def keywordLevel_def asciiTables_def matcher_defs)

text \<open>
  C6 as stated fails on two kinds of line. With two structured tokens the level is that of
  the first, not of the second; and a token inside a longer word is not seen by the
  pattern, so the keyword fallback decides.
\<close>

theorem C6_counterexample:
  "levelTokenAt ''INFO [a] ERROR [b]'' 9 ''ERROR''
   \<and> Level (fst (ParseLine asciiTables sampleDetector ''INFO [a] ERROR [b]''))
        \<noteq> levelOfName ''ERROR''
   \<and> levelTokenAt ''cpuinfo [0] fatal'' 3 ''INFO''
   \<and> Level (fst (ParseLine asciiTables sampleDetector ''cpuinfo [0] fatal''))
        \<noteq> levelOfName ''INFO''"
  by (simp add: two_tokens_Level inner_token_Level levelOfName_def levelTokenAt_def
      levelNames_def isSpaceChar_def toUpperByte_def char_of_def bit_0)

section \<open>Properties of pattern compilation\<close>

lemma compileEach_fails:
  "pattern \<in> set patterns \<Longrightarrow> compile pattern = Inl err \<Longrightarrow>
     \<exists>e. compileEach compile patterns regexes = Inl e"
  by (induction patterns arbitrary: regexes) (auto split: sum.splits)

lemma CompilePatterns_fails:
  assumes "pattern \<in> set (ErrorPatterns c @ SlowPatterns c @ SuspiciousPatterns c)"
    and "compile pattern = Inl err"
  shows "\<exists>e. CompilePatterns compile c = Inl e"
proof -
  from assms(1) consider
    "pattern \<in> set (ErrorPatterns c)" | "pattern \<in> set (SlowPatterns c)"
    | "pattern \<in> set (SuspiciousPatterns c)"
    by auto
  then show ?thesis
  proof cases
    case 1
    from compileEach_fails [where compile = compile and regexes = "[]", OF this assms(2)]
    show ?thesis
      by (auto simp add: CompilePatterns_def split: sum.splits)
  next
    case 2
    from compileEach_fails [where compile = compile and regexes = "[]", OF this assms(2)]
    show ?thesis
      by (auto simp add: CompilePatterns_def split: sum.splits)
  next
    case 3
    from compileEach_fails [where compile = compile and regexes = "[]", OF this assms(2)]
    show ?thesis
      by (auto simp add: CompilePatterns_def split: sum.splits)
  qed
qed

lemma NewDetectorWithConfig_recovers:
  "CompilePatterns compile cfg = Inl e \<Longrightarrow>
     errorPatterns (NewDetectorWithConfig compile cfg) = []
     \<and> slowPatterns (NewDetectorWithConfig compile cfg) = []
     \<and> suspiciousIPs (NewDetectorWithConfig compile cfg) = []"
  by (simp add: NewDetectorWithConfig_def)

lemma NewDetectorWithConfig_config: "config (NewDetectorWithConfig compile cfg) = cfg"
  by (simp add: NewDetectorWithConfig_def split: sum.splits prod.splits)

lemma ParseLine_without_patterns:
  assumes "errorPatterns d = []" "slowPatterns d = []" "suspiciousIPs d = []"
  shows "Score (fst (ParseLine u d line)) = levelBase (Level (fst (ParseLine u d line)))"
    and "IsAnomaly (fst (ParseLine u d line))
      \<longleftrightarrow> AnomalyThreshold (config d) \<le> Score (fst (ParseLine u d line))"
  using assms
  by (simp_all add: ParseLine_entry Let_def scanAll_def levelStep_entry)

text \<open>
  C7. If one configured pattern of any category does not compile, \<open>CompilePatterns\<close>
  returns an error, the constructor still returns a detector, with three empty pattern
  lists, and every line parsed afterwards gets the base of its level as score and is
  flagged exactly when that score reaches the threshold.
\<close>

theorem C7_compile_failure_falls_back_to_levels:
  assumes "pattern \<in> set (ErrorPatterns cfg @ SlowPatterns cfg @ SuspiciousPatterns cfg)"
    and "compile pattern = Inl err"
  shows "(\<exists>e. CompilePatterns compile cfg = Inl e)
    \<and> errorPatterns (NewDetectorWithConfig compile cfg) = []
    \<and> slowPatterns (NewDetectorWithConfig compile cfg) = []
    \<and> suspiciousIPs (NewDetectorWithConfig compile cfg) = []
    \<and> Score (fst (ParseLine u (afterLines u (NewDetectorWithConfig compile cfg) earlier) line))
        = levelBase
            (Level (fst (ParseLine u (afterLines u (NewDetectorWithConfig compile cfg) earlier) line)))
    \<and> (IsAnomaly (fst (ParseLine u (afterLines u (NewDetectorWithConfig compile cfg) earlier) line))
        \<longleftrightarrow> AnomalyThreshold cfg
          \<le> Score (fst (ParseLine u (afterLines u (NewDetectorWithConfig compile cfg) earlier) line)))"
proof -
  from CompilePatterns_fails [where compile = compile, OF assms] obtain e where e: "CompilePatterns compile cfg = Inl e"
    by blast
  let ?d = "afterLines u (NewDetectorWithConfig compile cfg) earlier"
  have empty: "errorPatterns ?d = []" "slowPatterns ?d = []" "suspiciousIPs ?d = []"
    and cfg: "config ?d = cfg"
    using NewDetectorWithConfig_recovers [OF e]
    by (simp_all add: afterLines_keeps_patterns NewDetectorWithConfig_config)
  show ?thesis
    using e NewDetectorWithConfig_recovers [OF e] ParseLine_without_patterns [OF empty, of u line]
    by (simp add: cfg)
qed

lemma broken_pattern:
  "''('' \<in> set (ErrorPatterns brokenConfig @ SlowPatterns brokenConfig
      @ SuspiciousPatterns brokenConfig)"
  by (simp add: brokenConfig_def)

lemma broken_compile: "compileLiteral ''('' = Inl (RegexpError ''unsupported'' ''('')"
  by (simp add: compileLiteral_def isLetter_def)

lemma timeout_line_Level:
  "Level (fst (ParseLine asciiTables d ''ERROR [db] timeout'')) = ERROR"
  by (simp add: ParseLine_Level levelStep_def structuredLevel_def asciiTables_def matcher_defs)

theorem C7_compile_failure_falls_back_to_levels_witness:
  "''('' \<in> set (ErrorPatterns brokenConfig @ SlowPatterns brokenConfig
      @ SuspiciousPatterns brokenConfig)
   \<and> compileLiteral ''('' = Inl (RegexpError ''unsupported'' ''('')
   \<and> compileLiteral ''timeout'' = Inr (literal ''timeout'')
   \<and> literal ''timeout'' ''ERROR [db] timeout''
   \<and> errorPatterns (NewDetectorWithConfig compileLiteral brokenConfig) = []
   \<and> Score (fst (ParseLine asciiTables
        (afterLines asciiTables (NewDetectorWithConfig compileLiteral brokenConfig) [''boot''])
        ''ERROR [db] timeout'')) = 50"
proof -
  have ok: "compileLiteral ''timeout'' = Inr (literal ''timeout'')"
    by (simp add: compileLiteral_def isLetter_def)
  have hit: "literal ''timeout'' ''ERROR [db] timeout''"
    by (simp add: literal_def)
  show ?thesis
    using C7_compile_failure_falls_back_to_levels [where compile = compileLiteral
        and u = asciiTables and earlier = "[''boot'']" and line = "''ERROR [db] timeout''",
        OF broken_pattern broken_compile]
      broken_pattern broken_compile ok hit
    by (simp add: timeout_line_Level)
qed

section \<open>Properties of the filter\<close>

lemma sample_component: "extractComponent (Raw sampleEntry) = ''db''"
  by (simp add: sampleEntry_def)

text \<open>
  A non-empty component is the inside of the first bracket pair of the line that is not
  empty; it holds no closing bracket.
\<close>

lemma extractComponent_bracketed:
  "extractComponent line \<noteq> [] \<Longrightarrow>
     \<exists>before rest. line = before @ CHR ''['' # extractComponent line @ CHR '']'' # rest
       \<and> CHR '']'' \<notin> set (extractComponent line)"
proof (induction line)
  case Nil
  then show ?case by simp
next
  case (Cons c cs)
  let ?body = "takeWhile (\<lambda>x. x \<noteq> CHR '']'') cs"
  let ?tail = "dropWhile (\<lambda>x. x \<noteq> CHR '']'') cs"
  show ?case
  proof (cases "c = CHR ''['' \<and> ?body \<noteq> [] \<and> ?tail \<noteq> []")
    case True
    then have ec: "extractComponent (c # cs) = ?body" by simp
    from True have ne: "?tail \<noteq> []" by simp
    from hd_dropWhile [OF ne] have "hd ?tail = CHR '']''" by simp
    with ne obtain rest where tail: "?tail = CHR '']'' # rest"
      by (cases ?tail) auto
    have "cs = ?body @ ?tail" by simp
    with tail have "c # cs = [] @ CHR ''['' # ?body @ CHR '']'' # rest"
      using True by simp
    moreover have "CHR '']'' \<notin> set ?body"
      by (auto dest: set_takeWhileD)
    ultimately show ?thesis unfolding ec by blast
  next
    case False
    then have ec: "extractComponent (c # cs) = extractComponent cs" by auto
    with Cons.prems have "extractComponent cs \<noteq> []" by simp
    from Cons.IH [OF this] obtain before rest
      where "cs = before @ CHR ''['' # extractComponent cs @ CHR '']'' # rest"
        and "CHR '']'' \<notin> set (extractComponent cs)" by blast
    then have "c # cs = (c # before) @ CHR ''['' # extractComponent cs @ CHR '']'' # rest"
      by simp
    with \<open>CHR '']'' \<notin> set (extractComponent cs)\<close> show ?thesis unfolding ec by blast
  qed
qed

text \<open>
  C8. For every entry and config, the filter rejects an entry whose extracted component is
  listed in \<open>ExcludeComponents\<close>, whether or not \<open>IncludeComponents\<close> lists it too; an
  entry that is shown has passed the include gate and the exclude gate.
\<close>

theorem C8_exclude_wins:
  "(extractComponent (Raw entry) \<in> set (ExcludeComponents c) \<longrightarrow> \<not> ShouldShow c entry)
   \<and> (ShouldShow c entry \<longrightarrow>
        (IncludeComponents c = [] \<or> extractComponent (Raw entry) \<in> set (IncludeComponents c))
        \<and> extractComponent (Raw entry) \<notin> set (ExcludeComponents c))"
  by (auto simp add: ShouldShow_def Let_def)

theorem C8_exclude_wins_witness:
  "extractComponent (Raw sampleEntry)
     \<in> set (ExcludeComponents (DefaultConfig\<lparr>IncludeComponents := [''db''], ExcludeComponents := [''db'']\<rparr>))
   \<and> extractComponent (Raw sampleEntry)
     \<in> set (IncludeComponents (DefaultConfig\<lparr>IncludeComponents := [''db''], ExcludeComponents := [''db'']\<rparr>))
   \<and> \<not> ShouldShow (DefaultConfig\<lparr>IncludeComponents := [''db''], ExcludeComponents := [''db'']\<rparr>) sampleEntry
   \<and> ShouldShow (DefaultConfig\<lparr>IncludeComponents := [''db'']\<rparr>) sampleEntry
   \<and> extractComponent (Raw sampleEntry)
     \<notin> set (ExcludeComponents (DefaultConfig\<lparr>IncludeComponents := [''db'']\<rparr>))"
proof -
  have shown: "ShouldShow (DefaultConfig\<lparr>IncludeComponents := [''db'']\<rparr>) sampleEntry"
    by (simp add: ShouldShow_def parseMinLevel_def DefaultConfig_def sampleEntry_def)
  show ?thesis
    using C8_exclude_wins [of sampleEntry
        "DefaultConfig\<lparr>IncludeComponents := [''db''], ExcludeComponents := [''db'']\<rparr>"]
      C8_exclude_wins [of sampleEntry "DefaultConfig\<lparr>IncludeComponents := [''db'']\<rparr>"] shown
    by (simp add: sample_component)
qed

text \<open>
  C9. For every config whose \<open>MinLevel\<close> is none of FATAL, ERROR, WARN, INFO (the empty
  string and unknown names included), the minimum level parses to DEBUG, so the level gate
  passes entries of every level and the filter's answer is that of the component gates.
\<close>

theorem C9_unknown_min_level_is_debug:
  assumes "MinLevel c \<notin> {''FATAL'', ''ERROR'', ''WARN'', ''INFO''}"
  shows "parseMinLevel c = DEBUG
    \<and> \<not> levelValue (Level entry) < levelValue (parseMinLevel c)
    \<and> (ShouldShow c entry \<longleftrightarrow>
         (IncludeComponents c = [] \<or> extractComponent (Raw entry) \<in> set (IncludeComponents c))
         \<and> extractComponent (Raw entry) \<notin> set (ExcludeComponents c))"
proof -
  have min: "parseMinLevel c = DEBUG"
    using assms by (simp add: parseMinLevel_def)
  have gate: "\<not> levelValue (Level entry) < levelValue DEBUG"
    by (cases "Level entry") simp_all
  show ?thesis
    using gate by (auto simp add: min ShouldShow_def Let_def)
qed

theorem C9_unknown_min_level_is_debug_witness:
  "MinLevel (DefaultConfig\<lparr>MinLevel := ''verbose''\<rparr>) \<notin> {''FATAL'', ''ERROR'', ''WARN'', ''INFO''}
   \<and> MinLevel (DefaultConfig\<lparr>MinLevel := []\<rparr>) \<notin> {''FATAL'', ''ERROR'', ''WARN'', ''INFO''}
   \<and> parseMinLevel (DefaultConfig\<lparr>MinLevel := ''verbose''\<rparr>) = DEBUG
   \<and> parseMinLevel (DefaultConfig\<lparr>MinLevel := []\<rparr>) = DEBUG
   \<and> ShouldShow (DefaultConfig\<lparr>MinLevel := ''verbose''\<rparr>)
        \<lparr>Level = DEBUG, Raw = ''tick'', IsAnomaly = False, Score = 0\<rparr>"
proof -
  have a: "MinLevel (DefaultConfig\<lparr>MinLevel := ''verbose''\<rparr>) \<notin> {''FATAL'', ''ERROR'', ''WARN'', ''INFO''}"
    by simp
  have b: "MinLevel (DefaultConfig\<lparr>MinLevel := []\<rparr>) \<notin> {''FATAL'', ''ERROR'', ''WARN'', ''INFO''}"
    by simp
  show ?thesis
    using a b
      C9_unknown_min_level_is_debug [OF a, of "\<lparr>Level = DEBUG, Raw = ''tick'', IsAnomaly = False, Score = 0\<rparr>"]
      C9_unknown_min_level_is_debug [OF b, of "\<lparr>Level = DEBUG, Raw = ''tick'', IsAnomaly = False, Score = 0\<rparr>"]
    by (simp add: DefaultConfig_def)
qed

text \<open>
  C10. The filter's answer depends only on the entry's level and raw line and on the config
  fields \<open>MinLevel\<close>, \<open>IncludeComponents\<close> and \<open>ExcludeComponents\<close>; in particular
  setting \<open>ShowDebug\<close> and \<open>ShowInfo\<close> to any values does not change it.
\<close>

theorem C10_filter_ignores_show_flags:
  "(MinLevel c1 = MinLevel c2 \<and> IncludeComponents c1 = IncludeComponents c2
      \<and> ExcludeComponents c1 = ExcludeComponents c2
      \<and> Level e1 = Level e2 \<and> Raw e1 = Raw e2
    \<longrightarrow> ShouldShow c1 e1 = ShouldShow c2 e2)
   \<and> ShouldShow (c\<lparr>ShowDebug := showDebug, ShowInfo := showInfo\<rparr>) entry = ShouldShow c entry"
proof -
  have "ShouldShow c1 e1 = ShouldShow c2 e2"
    if "MinLevel c1 = MinLevel c2" "IncludeComponents c1 = IncludeComponents c2"
      "ExcludeComponents c1 = ExcludeComponents c2" "Level e1 = Level e2" "Raw e1 = Raw e2"
    using that by (simp only: ShouldShow_def parseMinLevel_def)
  moreover have "ShouldShow (c\<lparr>ShowDebug := showDebug, ShowInfo := showInfo\<rparr>) entry = ShouldShow c entry"
    by (simp add: ShouldShow_def parseMinLevel_def)
  ultimately show ?thesis by blast
qed

theorem C10_filter_ignores_show_flags_witness:
  "MinLevel DefaultConfig = MinLevel (DefaultConfig\<lparr>ShowDebug := True, ShowInfo := True\<rparr>)
   \<and> IncludeComponents DefaultConfig
       = IncludeComponents (DefaultConfig\<lparr>ShowDebug := True, ShowInfo := True\<rparr>)
   \<and> ExcludeComponents DefaultConfig
       = ExcludeComponents (DefaultConfig\<lparr>ShowDebug := True, ShowInfo := True\<rparr>)
   \<and> ShouldShow DefaultConfig sampleEntry
   \<and> ShouldShow (DefaultConfig\<lparr>ShowDebug := True, ShowInfo := True\<rparr>) sampleEntry"
proof -
  have shown: "ShouldShow DefaultConfig sampleEntry"
    by (simp add: ShouldShow_def parseMinLevel_def DefaultConfig_def sampleEntry_def)
  have same: "MinLevel DefaultConfig = MinLevel (DefaultConfig\<lparr>ShowDebug := True, ShowInfo := True\<rparr>)
   \<and> IncludeComponents DefaultConfig
       = IncludeComponents (DefaultConfig\<lparr>ShowDebug := True, ShowInfo := True\<rparr>)
   \<and> ExcludeComponents DefaultConfig
       = ExcludeComponents (DefaultConfig\<lparr>ShowDebug := True, ShowInfo := True\<rparr>)
   \<and> Level sampleEntry = Level sampleEntry \<and> Raw sampleEntry = Raw sampleEntry"
    by simp
  have "ShouldShow DefaultConfig sampleEntry
      = ShouldShow (DefaultConfig\<lparr>ShowDebug := True, ShowInfo := True\<rparr>) sampleEntry"
    using C10_filter_ignores_show_flags [of DefaultConfig
        "DefaultConfig\<lparr>ShowDebug := True, ShowInfo := True\<rparr>" sampleEntry sampleEntry]
      same by blast
  with shown same show ?thesis by blast
qed

section \<open>Properties of the command line\<close>

text \<open>Without a \<^verbatim>\<open>min-level\<close> flag the option keeps its default, and the last step of
  \<open>ApplyToConfig\<close> copies every non-empty option into the config.\<close>

lemma ParseCLI_without_min_level:
  "\<forall>s. FlagMinLevel s \<notin> set args \<Longrightarrow> MinLevel' (fold setFlag args opts) = MinLevel' opts"
proof (induction args arbitrary: opts)
  case Nil
  then show ?case by simp
next
  case (Cons a args)
  then show ?case by (cases a) auto
qed

lemma ApplyToConfig_MinLevel:
  "MinLevel' opts \<noteq> [] \<Longrightarrow> MinLevel (ApplyToConfig opts cfg) = MinLevel' opts"
  by (simp add: ApplyToConfig_def Let_def)

lemma all_flag_never_reaches_DEBUG:
  "\<forall>s. FlagMinLevel s \<notin> set args \<Longrightarrow> MinLevel (ApplyToConfig (ParseCLI args) cfg) = ''WARN''"
  by (simp add: ParseCLI_def ParseCLI_without_min_level ApplyToConfig_MinLevel flagDefaults_def)

text \<open>With \<^verbatim>\<open>--all\<close> and an empty \<^verbatim>\<open>min-level\<close> option the config does end with DEBUG.\<close>

lemma ApplyToConfig_all_without_min_level:
  "ShowAll opts \<Longrightarrow> MinLevel' opts = [] \<Longrightarrow> MinLevel (ApplyToConfig opts cfg) = ''DEBUG''"
  by (simp add: ApplyToConfig_def Let_def)

text \<open>
  C3 states that \<^verbatim>\<open>--all\<close> always results in the minimum level DEBUG. On the command
  line \<^verbatim>\<open>--all\<close> alone the option \<^verbatim>\<open>min-level\<close> keeps its registered default WARN,
  which \<open>ApplyToConfig\<close> writes over the DEBUG it has just set: the config ends with WARN
  and the filter still rejects an INFO entry.
\<close>

theorem C3_all_flag_leaves_WARN:
  "ShowAll (ParseCLI [FlagAll True])
   \<and> MinLevel (ApplyToConfig (ParseCLI [FlagAll True]) DefaultConfig) = ''WARN''
   \<and> \<not> ShouldShow (ApplyToConfig (ParseCLI [FlagAll True]) DefaultConfig)
        \<lparr>Level = INFO, Raw = ''INFO started'', IsAnomaly = False, Score = 0\<rparr>"
  by (simp add: ParseCLI_def flagDefaults_def ApplyToConfig_def DefaultConfig_def
      ShouldShow_def parseMinLevel_def Let_def)

end
